theory Spec2Isabelle
  imports Complex_Main "HOL-Library.Word" "HOL-Library.Log_Nat" "HOL-Library.Sublist"
begin

unbundle bit_operations_syntax

section \<open>Bytes, errors and the constants of MidiEvents\<close>

text \<open>
  The source is Python 2: a \<open>str\<close> is a sequence of bytes. \<open>track_data\<close> and
  \<open>delta_time\<close> are byte lists; the hexadecimal texts handed to \<open>a2b_hex\<close> are
  \<open>string\<close>s. Python integers are unbounded and are modelled by \<open>int\<close>.
\<close>

type_synonym byte = "8 word"

datatype error = AssertionError | TypeError | ZeroDivisionError | StructError

text \<open>Modelled from the spec: the event-type code of note-off, defined in the module
  MidiEvents, which the source imports (taken from the standard MIDI event-type table).\<close>
definition NOTE_OFF :: int where
  "NOTE_OFF = 0x08"

text \<open>Modelled from the spec: the event-type code of note-on of the module MidiEvents
  (the spec packs a note-on with type 9).\<close>
definition NOTE_ON :: int where
  "NOTE_ON = 0x09"

text \<open>Modelled from the spec: the event-type code of controller-change of the module
  MidiEvents (standard MIDI event-type table).\<close>
definition CONTROLLER :: int where
  "CONTROLLER = 0x0B"

text \<open>Modelled from the spec: the event-type code of program-change of the module
  MidiEvents (standard MIDI event-type table).\<close>
definition PROGRAM_CHANGE :: int where
  "PROGRAM_CHANGE = 0x0C"

text \<open>Modelled from the spec: the bank-select controller number of the module MidiEvents
  (standard MIDI controller table).\<close>
definition BANK_SELECT :: int where
  "BANK_SELECT = 0x00"

text \<open>Modelled from the spec: the track-chunk tag \<open>MTrk\<close> of the module MidiEvents.\<close>
definition TRACK_HEADER :: "byte list" where
  "TRACK_HEADER = [0x4D, 0x54, 0x72, 0x6B]"

section \<open>Hexadecimal formatting and \<open>a2b_hex\<close>\<close>

definition hexchar :: "nat \<Rightarrow> char" where
  "hexchar d = ''0123456789abcdef'' ! d"

fun hex_digits :: "nat \<Rightarrow> string" where
  "hex_digits n = (if n < 16 then [hexchar n] else hex_digits (n div 16) @ [hexchar (n mod 16)])"

declare hex_digits.simps [simp del]

definition zero_pad :: "nat \<Rightarrow> string \<Rightarrow> string" where
  "zero_pad w s = replicate (w - length s) CHR ''0'' @ s"

text \<open>\<open>format_x w n\<close> is Python's \<open>"%0wx" % n\<close> (\<open>w = 0\<close> for \<open>"%x"\<close>): lower-case
  hexadecimal, a minus sign for a negative number, zeros between sign and digits up to the
  width.\<close>

definition format_x :: "nat \<Rightarrow> int \<Rightarrow> string" where
  "format_x w n =
     (if n < 0 then CHR ''-'' # zero_pad (w - 1) (hex_digits (nat (- n)))
      else zero_pad w (hex_digits (nat n)))"

definition hexval :: "char \<Rightarrow> nat option" where
  "hexval c =
     (let k = (of_char c :: nat)
      in if 48 \<le> k \<and> k \<le> 57 then Some (k - 48)
         else if 97 \<le> k \<and> k \<le> 102 then Some (k - 87)
         else if 65 \<le> k \<and> k \<le> 70 then Some (k - 55)
         else None)"

text \<open>\<open>binascii.a2b_hex\<close>: two hexadecimal digits per byte; an odd number of characters or
  a character that is no hexadecimal digit raises \<open>TypeError\<close>.\<close>

fun a2b_hex :: "string \<Rightarrow> error + byte list" where
  "a2b_hex [] = Inr []"
| "a2b_hex [c] = Inl TypeError"
| "a2b_hex (c # d # cs) =
     (case (hexval c, hexval d) of
        (Some h, Some l) \<Rightarrow>
          (case a2b_hex cs of
             Inl e \<Rightarrow> Inl e
           | Inr bs \<Rightarrow> Inr (of_nat (16 * h + l) # bs))
      | _ \<Rightarrow> Inl TypeError)"

section \<open>The variable-length byte\<close>

text \<open>
  \<open>length = int(log(max(value, 1), 128)) + 1\<close>. The source computes the logarithm in
  double precision; the model takes the logarithm of the reals. The two agree on every
  value from 0 to 2097151 (the quotient of the two double logarithms is exactly 1.0 at
  128 and 2.0 at 16384); they differ for some larger values. The statements about the
  bytes of a delta-time below are therefore about values from 0 to 2097151.
\<close>

definition varbyte_length :: "int \<Rightarrow> nat" where
  "varbyte_length value = nat \<lfloor>log 128 (real_of_int (max value 1))\<rfloor> + 1"

text \<open>\<open>struct.pack('%sB' % len(bytes), *bytes)\<close>: every item must be in 0..255.\<close>

definition pack_B :: "int list \<Rightarrow> error + byte list" where
  "pack_B xs =
     (if list_all (\<lambda>x. 0 \<le> x \<and> x \<le> 255) xs then Inr (map word_of_int xs)
      else Inl StructError)"

text \<open>The loop \<open>for i in range(len(bytes)-1): bytes[i] = bytes[i] | 0x80\<close>.\<close>

definition set_high_bits :: "int list \<Rightarrow> int list" where
  "set_high_bits bytes = fold (\<lambda>i bs. bs[i := (bs ! i) OR 0x80]) [0..<length bytes - 1] bytes"

definition varbyte_ints :: "int \<Rightarrow> int list" where
  "varbyte_ints value =
     (let len = varbyte_length value;
          bytes = map (\<lambda>i. drop_bit (i * 7) value AND 0x7F) [0..<len];
          bytes = rev bytes
      in set_high_bits bytes)"

definition int_to_varbyte :: "int \<Rightarrow> error + byte list" where
  "int_to_varbyte value = pack_B (varbyte_ints value)"

subsection \<open>The variable-length quantity of the MIDI file format\<close>

text \<open>The base-128 digits of a number, most significant first.\<close>

fun digits128 :: "nat \<Rightarrow> nat list" where
  "digits128 n = (if n < 128 then [n] else digits128 (n div 128) @ [n mod 128])"

declare digits128.simps [simp del]

text \<open>The canonical encoding: every digit but the last carries the continuation bit.\<close>

definition canonical_vlq :: "nat \<Rightarrow> byte list" where
  "canonical_vlq n =
     map (\<lambda>d. of_nat d OR 0x80) (butlast (digits128 n)) @ [of_nat (last (digits128 n))]"

text \<open>A decoder of the format: it reads bytes as long as the continuation bit is set and
  returns the number with the bytes left over, or \<open>None\<close> when the input ends early.\<close>

fun varbyte_decode :: "nat \<Rightarrow> byte list \<Rightarrow> (nat \<times> byte list) option" where
  "varbyte_decode acc [] = None"
| "varbyte_decode acc (b # bs) =
     (let acc' = acc * 128 + unat (b AND 0x7F)
      in if bit b 7 then varbyte_decode acc' bs else Some (acc', bs))"

section \<open>The encoder\<close>

record MidiTrack =
  track_data :: "byte list"
  delta_time :: "byte list"
  delay :: int
  bpm :: int

text \<open>A call that raises leaves the object as it was at the raise: the result of a method
  that mutates is the new state, or the error with the state reached.\<close>

type_synonym result = "(error \<times> MidiTrack) + MidiTrack"

text \<open>A note: \<open>int(note)\<close> and the \<open>dynamics\<close> dictionary (\<open>None\<close> when the note has no
  such attribute).\<close>

record Note =
  note_int :: int
  dynamics :: "(string \<rightharpoonup> int) option"

text \<open>The argument of \<open>set_deltatime\<close>: an integer or a variable-length byte. The test
  \<open>type(delta_time) == int\<close> is the choice of the constructor; the separate type
  \<open>long\<close> that Python 2 gives to integers beyond the machine word is not modelled:
  the statements about \<open>delay\<close> below keep it between 0 and 2097151.\<close>

datatype deltatime = Ticks int | Varbyte "byte list"

text \<open>An entry of a bar: position, duration denominator, notes or \<open>None\<close>.\<close>

type_synonym beat = "rat \<times> rat \<times> Note list option"

text \<open>A track: \<open>instrument_nr\<close> of its instrument (\<open>None\<close> when the instrument has no
  such attribute) and its bars.\<close>

record Track =
  instrument_nr :: "int option"
  bars :: "beat list list"

definition end_of_track :: "byte list" where
  "end_of_track = [0x00, 0xFF, 0x2F, 0x00]"

definition midi_event :: "MidiTrack \<Rightarrow> int \<Rightarrow> int \<Rightarrow> int \<Rightarrow> int option \<Rightarrow> error + byte list" where
  "midi_event self event_type channel param1 param2 =
     (if \<not> (event_type < 128 \<and> event_type \<ge> 0) then Inl AssertionError
      else if \<not> (channel < 16 \<and> channel \<ge> 0) then Inl AssertionError
      else case a2b_hex (format_x 0 event_type @ format_x 0 channel) of
        Inl e \<Rightarrow> Inl e
      | Inr tc \<Rightarrow>
          (case a2b_hex (case param2 of
                           None \<Rightarrow> format_x 2 param1
                         | Some p2 \<Rightarrow> format_x 2 param1 @ format_x 2 p2) of
             Inl e \<Rightarrow> Inl e
           | Inr params \<Rightarrow> Inr (delta_time self @ tc @ params)))"

definition note_off :: "MidiTrack \<Rightarrow> int \<Rightarrow> int \<Rightarrow> int \<Rightarrow> error + byte list" where
  "note_off self channel note velocity = midi_event self NOTE_OFF channel note (Some velocity)"

definition note_on :: "MidiTrack \<Rightarrow> int \<Rightarrow> int \<Rightarrow> int \<Rightarrow> error + byte list" where
  "note_on self channel note velocity = midi_event self NOTE_ON channel note (Some velocity)"

definition controller_event :: "MidiTrack \<Rightarrow> int \<Rightarrow> int \<Rightarrow> int \<Rightarrow> error + byte list" where
  "controller_event self channel contr_nr contr_val =
     midi_event self CONTROLLER channel contr_nr (Some contr_val)"

text \<open>\<open>return self.controller_event(BANK_SELECT, channel, bank)\<close>: the source passes
  \<open>BANK_SELECT\<close> in the place of the channel and the channel in the place of the
  controller number.\<close>

definition select_bank :: "MidiTrack \<Rightarrow> int \<Rightarrow> int \<Rightarrow> error + byte list" where
  "select_bank self channel bank = controller_event self BANK_SELECT channel bank"

definition program_change_event :: "MidiTrack \<Rightarrow> int \<Rightarrow> int \<Rightarrow> error + byte list" where
  "program_change_event self channel instr = midi_event self PROGRAM_CHANGE channel instr None"

text \<open>\<open>ms_per_min / bpm\<close> is the floor division of Python 2 integers.\<close>

definition set_tempo_event :: "MidiTrack \<Rightarrow> int \<Rightarrow> error + byte list" where
  "set_tempo_event self bpm_arg =
     (let ms_per_min = 60000000
      in if bpm_arg = 0 then Inl ZeroDivisionError
         else case a2b_hex (format_x 6 (ms_per_min div bpm_arg)) of
           Inl e \<Rightarrow> Inl e
         | Inr mpqn \<Rightarrow> Inr (delta_time self @ [0xFF, 0x51, 0x03] @ mpqn))"

definition set_tempo :: "MidiTrack \<Rightarrow> int \<Rightarrow> result" where
  "set_tempo self bpm_arg =
     (let self = self\<lparr>bpm := bpm_arg\<rparr>
      in case set_tempo_event self (bpm self) of
           Inl e \<Rightarrow> Inl (e, self)
         | Inr ev \<Rightarrow> Inr (self\<lparr>track_data := track_data self @ ev\<rparr>))"

text \<open>The class attributes give a new object its \<open>delta_time\<close>, \<open>delay\<close> and \<open>bpm\<close>;
  \<open>__init__\<close> empties \<open>track_data\<close> and sets the tempo.\<close>

definition class_attributes :: MidiTrack where
  "class_attributes = \<lparr>track_data = [], delta_time = [0x00], delay = 0, bpm = 120\<rparr>"


definition reset :: "MidiTrack \<Rightarrow> MidiTrack" where
  "reset self = self\<lparr>track_data := [], delta_time := [0x00]\<rparr>"

definition set_deltatime :: "MidiTrack \<Rightarrow> deltatime \<Rightarrow> result" where
  "set_deltatime self dt =
     (case dt of
        Ticks n \<Rightarrow>
          (case int_to_varbyte n of
             Inl e \<Rightarrow> Inl (e, self)
           | Inr bs \<Rightarrow> Inr (self\<lparr>delta_time := bs\<rparr>))
      | Varbyte bs \<Rightarrow> Inr (self\<lparr>delta_time := bs\<rparr>))"

definition play_Note :: "MidiTrack \<Rightarrow> int \<Rightarrow> Note \<Rightarrow> result" where
  "play_Note self channel note =
     (let velocity = (case dynamics note of
                        None \<Rightarrow> 64
                      | Some d \<Rightarrow> (case d ''velocity'' of None \<Rightarrow> 64 | Some v \<Rightarrow> v))
      in case note_on self channel (note_int note + 12) velocity of
           Inl e \<Rightarrow> Inl (e, self)
         | Inr ev \<Rightarrow> Inr (self\<lparr>track_data := track_data self @ ev\<rparr>))"

definition stop_Note :: "MidiTrack \<Rightarrow> int \<Rightarrow> Note \<Rightarrow> result" where
  "stop_Note self channel note =
     (let velocity = (case dynamics note of
                        None \<Rightarrow> 64
                      | Some d \<Rightarrow> (case d ''velocity'' of None \<Rightarrow> 64 | Some v \<Rightarrow> v))
      in case note_off self channel (note_int note + 12) velocity of
           Inl e \<Rightarrow> Inl (e, self)
         | Inr ev \<Rightarrow> Inr (self\<lparr>track_data := track_data self @ ev\<rparr>))"

text \<open>The comprehensions \<open>[self.play_Note(channel, x) for x in ...]\<close> and
  \<open>[self.stop_Note(channel, x) for x in ...]\<close>: one call per note, in order, up to the
  first that raises.\<close>

fun play_Notes :: "MidiTrack \<Rightarrow> int \<Rightarrow> Note list \<Rightarrow> result" where
  "play_Notes self channel [] = Inr self"
| "play_Notes self channel (x # xs) =
     (case play_Note self channel x of
        Inl r \<Rightarrow> Inl r
      | Inr self' \<Rightarrow> play_Notes self' channel xs)"

fun stop_Notes :: "MidiTrack \<Rightarrow> int \<Rightarrow> Note list \<Rightarrow> result" where
  "stop_Notes self channel [] = Inr self"
| "stop_Notes self channel (x # xs) =
     (case stop_Note self channel x of
        Inl r \<Rightarrow> Inl r
      | Inr self' \<Rightarrow> stop_Notes self' channel xs)"

definition play_NoteContainer :: "MidiTrack \<Rightarrow> int \<Rightarrow> Note list \<Rightarrow> result" where
  "play_NoteContainer self channel notecontainer =
     (if length notecontainer \<le> 1 then play_Notes self channel notecontainer
      else case play_Note self channel (notecontainer ! 0) of
        Inl r \<Rightarrow> Inl r
      | Inr self1 \<Rightarrow>
          (case set_deltatime self1 (Ticks 0) of
             Inl r \<Rightarrow> Inl r
           | Inr self2 \<Rightarrow> play_Notes self2 channel (drop 1 notecontainer)))"

definition stop_NoteContainer :: "MidiTrack \<Rightarrow> int \<Rightarrow> Note list \<Rightarrow> result" where
  "stop_NoteContainer self channel notecontainer =
     (if length notecontainer \<le> 1 then stop_Notes self channel notecontainer
      else case stop_Note self channel (notecontainer ! 0) of
        Inl r \<Rightarrow> Inl r
      | Inr self1 \<Rightarrow>
          (case set_deltatime self1 (Ticks 0) of
             Inl r \<Rightarrow> Inl r
           | Inr self2 \<Rightarrow> stop_Notes self2 channel (drop 1 notecontainer)))"

text \<open>
  \<open>tick = int(round((1.0 / x[1] * 288)))\<close>. Python 2 rounds a half away from zero. The
  source computes in double precision; the model computes with rationals, and a
  denominator 0 raises \<open>ZeroDivisionError\<close> as the division of floats does. The two
  agree for every integer denominator from 1 to 300000 (also at 64, 192 and 576, where
  288 / denominator is a half: the double product is exactly 4.5, 1.5 and 0.5). They
  differ for some other denominators: for 576 / 7 the double product is
  3.4999999999999996 and the source's tick is 3, while the rational 7 / 2 rounds to 4.
  The statements about ticks below are therefore about integer denominators from 1 to
  300000.
\<close>

definition py_round :: "rat \<Rightarrow> int" where
  "py_round x = (if 0 \<le> x then \<lfloor>x + 1 / 2\<rfloor> else \<lceil>x - 1 / 2\<rceil>)"

definition tick_of :: "rat \<Rightarrow> error + int" where
  "tick_of denominator =
     (if denominator = 0 then Inl ZeroDivisionError
      else Inr (py_round (1 / denominator * 288)))"

fun play_Bar :: "MidiTrack \<Rightarrow> int \<Rightarrow> beat list \<Rightarrow> result" where
  "play_Bar self channel [] = Inr self"
| "play_Bar self channel (x # bar) =
     (case tick_of (fst (snd x)) of
        Inl e \<Rightarrow> Inl (e, self)
      | Inr tick \<Rightarrow>
          if snd (snd x) = None \<or> length (the (snd (snd x))) = 0
          then play_Bar (self\<lparr>delay := delay self + tick\<rparr>) channel bar
          else
            (case set_deltatime self (Ticks (delay self)) of
               Inl r \<Rightarrow> Inl r
             | Inr self1 \<Rightarrow>
                 (case play_NoteContainer (self1\<lparr>delay := 0\<rparr>) channel (the (snd (snd x))) of
                    Inl r \<Rightarrow> Inl r
                  | Inr self2 \<Rightarrow>
                      (case int_to_varbyte tick of
                         Inl e \<Rightarrow> Inl (e, self2)
                       | Inr vb \<Rightarrow>
                           (case set_deltatime self2 (Varbyte vb) of
                              Inl r \<Rightarrow> Inl r
                            | Inr self3 \<Rightarrow>
                                (case stop_NoteContainer self3 channel (the (snd (snd x))) of
                                   Inl r \<Rightarrow> Inl r
                                 | Inr self4 \<Rightarrow> play_Bar self4 channel bar))))))"

definition set_instrument :: "MidiTrack \<Rightarrow> int \<Rightarrow> int \<Rightarrow> int \<Rightarrow> result" where
  "set_instrument self channel instr bank =
     (case select_bank self channel bank of
        Inl e \<Rightarrow> Inl (e, self)
      | Inr ev \<Rightarrow>
          (let self1 = self\<lparr>track_data := track_data self @ ev\<rparr>
           in case program_change_event self1 channel instr of
                Inl e \<Rightarrow> Inl (e, self1)
              | Inr ev' \<Rightarrow> Inr (self1\<lparr>track_data := track_data self1 @ ev'\<rparr>)))"

text \<open>The loop \<open>for bar in track: self.play_Bar(channel, bar)\<close>.\<close>

fun play_Bars :: "MidiTrack \<Rightarrow> int \<Rightarrow> beat list list \<Rightarrow> result" where
  "play_Bars self channel [] = Inr self"
| "play_Bars self channel (bar # rest) =
     (case play_Bar self channel bar of
        Inl r \<Rightarrow> Inl r
      | Inr self' \<Rightarrow> play_Bars self' channel rest)"

text \<open>\<open>set_instrument\<close> is called with its default bank 1.\<close>

definition play_Track :: "MidiTrack \<Rightarrow> int \<Rightarrow> Track \<Rightarrow> result" where
  "play_Track self channel trk =
     (let self0 = self\<lparr>delay := 0\<rparr>
      in case (case instrument_nr trk of
                 Some nr \<Rightarrow> set_instrument self0 channel nr 1
               | None \<Rightarrow> Inr self0) of
           Inl r \<Rightarrow> Inl r
         | Inr self1 \<Rightarrow> play_Bars self1 channel (bars trk))"

definition header :: "MidiTrack \<Rightarrow> error + byte list" where
  "header self =
     (case a2b_hex (format_x 8 (int (length (track_data self) + length end_of_track))) of
        Inl e \<Rightarrow> Inl e
      | Inr chunk_size \<Rightarrow> Inr (TRACK_HEADER @ chunk_size))"

definition get_midi_data :: "MidiTrack \<Rightarrow> error + byte list" where
  "get_midi_data self =
     (case header self of
        Inl e \<Rightarrow> Inl e
      | Inr h \<Rightarrow> Inr (h @ track_data self @ end_of_track))"

section \<open>Calls on an encoder\<close>

text \<open>The methods that change the encoder, as values, so that a statement can speak of
  every call and of every sequence of calls.\<close>

datatype call =
    Play_Note int Note
  | Play_NoteContainer int "Note list"
  | Play_Bar int "beat list"
  | Play_Track int Track
  | Stop_Note int Note
  | Stop_NoteContainer int "Note list"
  | Set_instrument int int int
  | Set_deltatime deltatime
  | Set_tempo int
  | Reset

fun perform :: "MidiTrack \<Rightarrow> call \<Rightarrow> result" where
  "perform self (Play_Note channel n) = play_Note self channel n"
| "perform self (Play_NoteContainer channel notecontainer) = play_NoteContainer self channel notecontainer"
| "perform self (Play_Bar channel bar) = play_Bar self channel bar"
| "perform self (Play_Track channel trk) = play_Track self channel trk"
| "perform self (Stop_Note channel n) = stop_Note self channel n"
| "perform self (Stop_NoteContainer channel notecontainer) = stop_NoteContainer self channel notecontainer"
| "perform self (Set_instrument channel instr bank) = set_instrument self channel instr bank"
| "perform self (Set_deltatime dt) = set_deltatime self dt"
| "perform self (Set_tempo bpm_arg) = set_tempo self bpm_arg"
| "perform self Reset = Inr (reset self)"

text \<open>The encoder a call leaves behind, whether it returned or raised.\<close>

definition state_after :: "result \<Rightarrow> MidiTrack" where
  "state_after r = (case r of Inl (e, self) \<Rightarrow> self | Inr self \<Rightarrow> self)"


text \<open>A call that has only appended to \<open>track_data\<close>.\<close>

definition appends_only :: "MidiTrack \<Rightarrow> result \<Rightarrow> bool" where
  "appends_only self r \<longleftrightarrow> prefix (track_data self) (track_data (state_after r))"

section \<open>The tempo event at the head of the buffer, as bytes\<close>






section \<open>The bytes expected of a conversion\<close>

text \<open>The velocity \<open>play_Note\<close> and \<open>stop_Note\<close> read from a note: its
  \<open>dynamics["velocity"]\<close> when it has one, 64 otherwise.\<close>

definition velocity_of :: "Note \<Rightarrow> int" where
  "velocity_of n =
     (case dynamics n of
        None \<Rightarrow> 64
      | Some d \<Rightarrow> (case d ''velocity'' of None \<Rightarrow> 64 | Some v \<Rightarrow> v))"

text \<open>The three bytes of a note-on or note-off event after its delta-time: status byte,
  pitch shifted by 12, velocity.\<close>

definition voice_message :: "int \<Rightarrow> int \<Rightarrow> Note \<Rightarrow> byte list" where
  "voice_message event_type channel n =
     [word_of_int (16 * event_type + channel), word_of_int (note_int n + 12),
      word_of_int (velocity_of n)]"

text \<open>A note whose shifted pitch and velocity fit one byte each.\<close>

definition encodable :: "Note \<Rightarrow> bool" where
  "encodable n \<longleftrightarrow>
     0 \<le> note_int n + 12 \<and> note_int n + 12 \<le> 255 \<and> 0 \<le> velocity_of n \<and> velocity_of n \<le> 255"

text \<open>The events of a group of simultaneous notes: the first carries the delta-time
  \<open>dt\<close>, each later one the delta-time 00.\<close>

fun chord_events :: "int \<Rightarrow> byte list \<Rightarrow> int \<Rightarrow> Note list \<Rightarrow> byte list" where
  "chord_events event_type dt channel [] = []"
| "chord_events event_type dt channel (n # ns) =
     dt @ voice_message event_type channel n @
     concat (map (\<lambda>x. 0x00 # voice_message event_type channel x) ns)"

text \<open>The bytes \<open>int_to_varbyte\<close> packs.\<close>

definition varbyte_of :: "int \<Rightarrow> byte list" where
  "varbyte_of v = map word_of_int (varbyte_ints v)"

text \<open>A 4-byte big-endian field and the number a big-endian field holds.\<close>

definition big_endian32 :: "nat \<Rightarrow> byte list" where
  "big_endian32 n = [of_nat (n div 2 ^ 24), of_nat (n div 2 ^ 16), of_nat (n div 2 ^ 8), of_nat n]"

definition big_endian_value :: "byte list \<Rightarrow> nat" where
  "big_endian_value bs = foldl (\<lambda>a b. a * 256 + unat b) 0 bs"

text \<open>The hexadecimal digits of a number in a fixed width.\<close>

fun hex_fixed :: "nat \<Rightarrow> nat \<Rightarrow> string" where
  "hex_fixed 0 n = []"
| "hex_fixed (Suc k) n = hex_fixed k (n div 16) @ [hexchar (n mod 16)]"

section \<open>The variable-length byte is the canonical variable-length quantity\<close>

lemma varbyte_length_floorlog: "varbyte_length v = floorlog 128 (nat (max v 1))"
  by (simp add: varbyte_length_def floorlog_def max_def)

lemma fold_update_prefix:
  "k \<le> length bs \<Longrightarrow>
     fold (\<lambda>i bs. bs[i := f (bs ! i)]) [0..<k] bs = map f (take k bs) @ drop k bs"
proof (induction k)
  case 0
  then show ?case by simp
next
  case (Suc k)
  then have k: "k < length bs" by simp
  have "fold (\<lambda>i bs. bs[i := f (bs ! i)]) [0..<Suc k] bs
      = (map f (take k bs) @ drop k bs)[k := f ((map f (take k bs) @ drop k bs) ! k)]"
    using Suc by simp
  also have "\<dots> = map f (take k bs) @ (drop k bs)[0 := f (bs ! k)]"
    using k by (simp add: list_update_append nth_append)
  also have "drop k bs = bs ! k # drop (Suc k) bs"
    using k by (simp add: Cons_nth_drop_Suc)
  finally show ?case
    using k by (simp add: take_Suc_conv_app_nth)
qed

lemma set_high_bits_eq:
  "set_high_bits bs = map (\<lambda>b. b OR 0x80) (butlast bs) @ (if bs = [] then [] else [last bs])"
proof (cases "bs = []")
  case True
  then show ?thesis by (simp add: set_high_bits_def)
next
  case False
  then have "drop (length bs - 1) bs = [last bs]"
    by (metis append_butlast_last_id append_eq_conv_conj length_butlast)
  then show ?thesis
    using False fold_update_prefix [of "length bs - 1" bs "\<lambda>b. b OR 0x80"]
    by (simp add: set_high_bits_def butlast_conv_take)
qed

lemma digits128_floorlog:
  "digits128 n = map (\<lambda>i. n div 128 ^ i mod 128) (rev [0..<floorlog 128 (max n 1)])"
proof (induction n rule: digits128.induct)
  case (1 n)
  show ?case
  proof (cases "n < 128")
    case True
    then have "floorlog 128 (max n 1) = 1"
      by (subst compute_floorlog) (simp add: compute_floorlog max_def)
    with True show ?thesis by (simp add: digits128.simps)
  next
    case False
    then have m: "max n 1 = n" "max (n div 128) 1 = n div 128" by (auto simp: max_def)
    have fl: "floorlog 128 n = Suc (floorlog 128 (n div 128))"
      using False by (subst compute_floorlog) simp
    have "map (\<lambda>i. n div 128 ^ i mod 128) (rev [0..<Suc (floorlog 128 (n div 128))])
        = map (\<lambda>i. n div 128 ^ i mod 128) (rev (map Suc [0..<floorlog 128 (n div 128)])) @ [n mod 128]"
      by (simp only: upt_conv_Cons [of 0] map_Suc_upt [symmetric]) (simp add: upt_conv_Cons)
    also have "\<dots> = map (\<lambda>i. (n div 128) div 128 ^ i mod 128) (rev [0..<floorlog 128 (n div 128)]) @ [n mod 128]"
      by (simp add: rev_map comp_def div_mult2_eq)
    finally show ?thesis
      using False 1 by (simp add: digits128.simps [of n] m fl)
  qed
qed

lemma digits128_lt: "d \<in> set (digits128 n) \<Longrightarrow> d < 128"
  by (induction n rule: digits128.induct) (subst (asm) digits128.simps, auto split: if_splits)

lemma digits128_nonempty: "digits128 n \<noteq> []"
  by (subst digits128.simps) simp

lemma digits128_last_lt: "last (digits128 n) < 128"
  by (rule digits128_lt [OF last_in_set [OF digits128_nonempty]])

lemma digits128_hd: "0 < n \<Longrightarrow> 0 < hd (digits128 n)"
  by (induction n rule: digits128.induct) (subst digits128.simps, auto simp: digits128_nonempty)

lemma foldl_digits128: "foldl (\<lambda>a d. a * 128 + d) 0 (digits128 n) = n"
  by (induction n rule: digits128.induct) (subst digits128.simps, simp)

lemma septet_nat: "0 \<le> v \<Longrightarrow> drop_bit (i * 7) v AND 0x7F = int (nat v div 128 ^ i mod 128)"
proof -
  assume v: "0 \<le> v"
  have "drop_bit (i * 7) v AND 0x7F = take_bit 7 (drop_bit (i * 7) v)"
    by (simp add: take_bit_eq_mask mask_eq_exp_minus_1)
  also have "\<dots> = (v div 2 ^ (i * 7)) mod 128"
    by (simp add: take_bit_eq_mod drop_bit_eq_div)
  also have "(2::int) ^ (i * 7) = 128 ^ i"
  proof -
    have "(128::int) ^ i = (2 ^ 7) ^ i" by simp
    also have "\<dots> = 2 ^ (7 * i)" by (rule power_mult [symmetric])
    finally show ?thesis by (simp add: mult.commute)
  qed
  finally show ?thesis
    using v by (simp add: nat_div_distrib nat_mod_distrib nat_power_eq zdiv_int zmod_int)
qed

lemma varbyte_ints_digits:
  assumes "0 \<le> v"
  shows "varbyte_ints v =
           map (\<lambda>d. int d OR 0x80) (butlast (digits128 (nat v))) @ [int (last (digits128 (nat v)))]"
proof -
  have n: "nat (max v 1) = max (nat v) 1"
    using assms by (cases "v \<le> 1") (auto simp: max_def nat_le_iff)
  have "rev (map (\<lambda>i. drop_bit (i * 7) v AND 0x7F) [0..<varbyte_length v])
      = map int (digits128 (nat v))"
    using assms
    by (simp add: varbyte_length_floorlog n digits128_floorlog rev_map septet_nat comp_def)
  then have "varbyte_ints v = set_high_bits (map int (digits128 (nat v)))"
    unfolding varbyte_ints_def Let_def by (simp only:)
  then show ?thesis
    using digits128_nonempty [of "nat v"]
    by (simp add: set_high_bits_eq map_butlast last_map comp_def)
qed

lemma mask7: "(0x7F :: byte) = mask 7"
  by (simp add: mask_eq_exp_minus_1)

lemma septet_and:
  fixes d :: nat
  assumes "d < 128"
  shows "(of_nat d :: byte) AND 0x7F = of_nat d"
  using assms
  by (simp only: mask7 take_bit_eq_mask [symmetric]) (simp add: take_bit_of_nat take_bit_nat_eq_self)

lemma septet_unat:
  fixes d :: nat
  assumes "d < 128"
  shows "unat (of_nat d :: byte) = d"
  using assms by (simp add: unat_of_nat)

lemma septet_bit:
  fixes d :: nat
  assumes "d < 128"
  shows "\<not> bit (of_nat d :: byte) 7"
proof -
  have "\<not> bit d 7"
    using assms by (simp add: bit_iff_odd)
  then show ?thesis
    by (simp add: bit_of_nat_iff)
qed

lemma septet_or_and:
  fixes d :: nat
  assumes "d < 128"
  shows "((of_nat d :: byte) OR 0x80) AND 0x7F = of_nat d"
  using assms by (simp add: bit.conj_disj_distrib2 septet_and)

lemma septet_or_bit:
  fixes d :: nat
  shows "bit ((of_nat d :: byte) OR 0x80) 7"
  by (simp add: bit_or_iff)

lemma septet_or_range:
  fixes d :: nat
  assumes "d < 128"
  shows "0 \<le> int d OR 0x80" "int d OR 0x80 \<le> 255"
proof -
  show "0 \<le> int d OR 0x80" by simp
  have "int d OR 0x80 < 2 ^ 8"
    using assms by (intro OR_upper) simp_all
  then show "int d OR 0x80 \<le> 255" by simp
qed

lemma septet_or_word: "word_of_int (int d OR 0x80) = (of_nat d OR 0x80 :: byte)"
  by (simp add: of_int_or_eq)

lemma canonical_vlq_0: "canonical_vlq 0 = [0x00]"
  by (simp add: canonical_vlq_def digits128.simps)

lemma pack_B_digits:
  "pack_B (map (\<lambda>d. int d OR 0x80) (butlast (digits128 n)) @ [int (last (digits128 n))])
     = Inr (canonical_vlq n)"
proof -
  have "\<forall>d \<in> set (butlast (digits128 n)). d < 128"
    by (meson digits128_lt in_set_butlastD)
  then show ?thesis
    using digits128_last_lt [of n]
    by (simp add: pack_B_def canonical_vlq_def list_all_iff septet_or_range septet_or_word)
qed

lemma int_to_varbyte_canonical:
  "0 \<le> v \<Longrightarrow> int_to_varbyte v = Inr (canonical_vlq (nat v))"
  by (simp add: int_to_varbyte_def varbyte_ints_digits pack_B_digits)

lemma varbyte_decode_digits:
  assumes "ds \<noteq> []" "\<forall>d \<in> set ds. d < 128"
  shows "varbyte_decode acc (map (\<lambda>d. of_nat d OR 0x80) (butlast ds) @ of_nat (last ds) # rest)
           = Some (foldl (\<lambda>a d. a * 128 + d) acc ds, rest)"
  using assms
proof (induction ds arbitrary: acc)
  case Nil
  then show ?case by simp
next
  case (Cons d ds)
  show ?case
  proof (cases "ds = []")
    case True
    with Cons.prems show ?thesis
      by (simp add: septet_and septet_unat septet_bit)
  next
    case False
    with Cons show ?thesis
      by (simp add: septet_or_and septet_unat septet_or_bit)
  qed
qed

lemma varbyte_decode_canonical:
  "varbyte_decode 0 (canonical_vlq n @ rest) = Some (n, rest)"
  using varbyte_decode_digits [of "digits128 n" 0 rest]
  by (simp add: canonical_vlq_def digits128_nonempty digits128_lt foldl_digits128)

lemma canonical_vlq_continuation:
  "list_all (\<lambda>b. bit b 7) (butlast (canonical_vlq n))"
  by (simp add: canonical_vlq_def list_all_iff septet_or_bit)

lemma canonical_vlq_last:
  "\<not> bit (last (canonical_vlq n)) 7"
  by (simp add: canonical_vlq_def septet_bit digits128_last_lt)

lemma canonical_vlq_septets:
  "map (\<lambda>b. unat (b AND 0x7F)) (canonical_vlq n) = digits128 n"
proof -
  have "map (\<lambda>b. unat (b AND 0x7F)) (map (\<lambda>d. (of_nat d :: byte) OR 0x80) (butlast (digits128 n)))
          = butlast (digits128 n)"
    unfolding map_map
  proof (rule map_idI)
    fix d
    assume "d \<in> set (butlast (digits128 n))"
    then have "d < 128"
      by (meson digits128_lt in_set_butlastD)
    then show "((\<lambda>b. unat (b AND 0x7F)) \<circ> (\<lambda>d. (of_nat d :: byte) OR 0x80)) d = d"
      by (simp add: septet_or_and septet_unat)
  qed
  moreover have "unat ((of_nat (last (digits128 n)) :: byte) AND 0x7F) = last (digits128 n)"
    by (simp add: septet_and septet_unat digits128_last_lt)
  ultimately show ?thesis
    by (simp add: canonical_vlq_def digits128_nonempty)
qed

text \<open>
  C1. For every integer \<open>v\<close> from 0 to 2097151, \<open>int_to_varbyte v\<close> returns the canonical
  variable-length quantity of \<open>v\<close>: the low seven bits of its bytes are the base-128 digits
  of \<open>v\<close>, most significant first and without a leading zero digit; the continuation bit
  is set on every byte but the last and clear on the last; decoding the bytes, whatever
  follows them, gives \<open>v\<close> back; and the encoding of 0 is the single byte 00.
\<close>

theorem int_to_varbyte_canonical_vlq:
  assumes "0 \<le> v" and "v \<le> 2097151"
  shows "(\<exists>bs. int_to_varbyte v = Inr bs
            \<and> bs = canonical_vlq (nat v)
            \<and> map (\<lambda>b. unat (b AND 0x7F)) bs = digits128 (nat v)
            \<and> (v = 0 \<or> 0 < hd (digits128 (nat v)))
            \<and> list_all (\<lambda>b. bit b 7) (butlast bs) \<and> \<not> bit (last bs) 7
            \<and> (\<forall>rest. varbyte_decode 0 (bs @ rest) = Some (nat v, rest)))
         \<and> int_to_varbyte 0 = Inr [0x00]"
proof -
  have "v = 0 \<or> 0 < hd (digits128 (nat v))"
  proof (cases "v = 0")
    case True
    then show ?thesis by simp
  next
    case False
    with assms have "0 < nat v" by simp
    then show ?thesis by (simp add: digits128_hd)
  qed
  moreover have "int_to_varbyte 0 = Inr [0x00]"
    using int_to_varbyte_canonical [of 0] by (simp add: canonical_vlq_0)
  ultimately show ?thesis
    using assms
    by (simp add: int_to_varbyte_canonical canonical_vlq_septets canonical_vlq_continuation
        canonical_vlq_last varbyte_decode_canonical)
qed

theorem int_to_varbyte_canonical_vlq_witness:
  "(0::int) \<le> 300 \<and> (300::int) \<le> 2097151
     \<and> int_to_varbyte 300 = Inr [0x82, 0x2C]
     \<and> varbyte_decode 0 [0x82, 0x2C] = Some (300, [])
     \<and> int_to_varbyte 0 = Inr [0x00]"
proof -
  have c: "canonical_vlq 300 = [0x82, 0x2C]"
    by (simp add: canonical_vlq_def digits128.simps)
  show ?thesis
    using int_to_varbyte_canonical_vlq [of 300] by (simp add: c)
qed

section \<open>Hexadecimal text and the event packer\<close>

lemma hexval_hexchar: "d < 16 \<Longrightarrow> hexval (hexchar d) = Some d"
proof -
  assume "d < 16"
  then have "d < Suc (Suc (Suc (Suc (Suc (Suc (Suc (Suc (Suc (Suc (Suc (Suc (Suc (Suc (Suc (Suc 0)))))))))))))))"
    by simp
  then have "d = 0 \<or> d = 1 \<or> d = 2 \<or> d = 3 \<or> d = 4 \<or> d = 5 \<or> d = 6 \<or> d = 7
    \<or> d = 8 \<or> d = 9 \<or> d = 10 \<or> d = 11 \<or> d = 12 \<or> d = 13 \<or> d = 14 \<or> d = 15"
    unfolding less_Suc_eq by auto
  then show ?thesis
    by (elim disjE) (simp_all add: hexval_def hexchar_def)
qed


lemma hex_digits_1: "n < 16 \<Longrightarrow> hex_digits n = [hexchar n]"
  by (simp add: hex_digits.simps)

lemma hex_digits_2:
  "16 \<le> n \<Longrightarrow> n < 256 \<Longrightarrow> hex_digits n = [hexchar (n div 16), hexchar (n mod 16)]"
proof -
  assume "16 \<le> n" "n < 256"
  then have "n div 16 < 16" "\<not> n < 16" by auto
  then show ?thesis
    by (simp add: hex_digits.simps [of n] hex_digits_1)
qed

lemma format_x_nibble: "0 \<le> n \<Longrightarrow> n < 16 \<Longrightarrow> format_x 0 n = [hexchar (nat n)]"
  by (simp add: format_x_def zero_pad_def hex_digits_1)

lemma hexchar_0: "hexchar 0 = CHR ''0''"
  by (simp add: hexchar_def)

lemma format_02x_byte:
  assumes "0 \<le> n" "n \<le> 255"
  shows "format_x 2 n = [hexchar (nat n div 16), hexchar (nat n mod 16)]"
proof (cases "n < 16")
  case True
  with assms have "nat n < 16" "nat n div 16 = 0" "nat n mod 16 = nat n" by auto
  with assms show ?thesis
    by (simp add: format_x_def zero_pad_def hex_digits_1 hexchar_0)
next
  case False
  with assms have "16 \<le> nat n" "nat n < 256" by auto
  with assms show ?thesis
    by (simp add: format_x_def zero_pad_def hex_digits_2)
qed


lemma a2b_hex_pair:
  "h < 16 \<Longrightarrow> l < 16 \<Longrightarrow>
     a2b_hex (hexchar h # hexchar l # cs) =
       (case a2b_hex cs of Inl e \<Rightarrow> Inl e | Inr bs \<Rightarrow> Inr (of_nat (16 * h + l) # bs))"
  by (simp add: hexval_hexchar)

lemma byte_of_nibbles:
  "0 \<le> n \<Longrightarrow> (of_nat (16 * (nat n div 16) + nat n mod 16) :: byte) = word_of_int n"
proof -
  assume "0 \<le> n"
  have "16 * (nat n div 16) + nat n mod 16 = nat n"
    by simp
  then have "(of_nat (16 * (nat n div 16) + nat n mod 16) :: byte) = of_nat (nat n)"
    by (simp only:)
  with \<open>0 \<le> n\<close> show ?thesis
    by (simp only: word_of_int_nat)
qed

lemma a2b_hex_02x:
  assumes "0 \<le> n" "n \<le> 255"
  shows "a2b_hex (format_x 2 n @ cs) =
           (case a2b_hex cs of Inl e \<Rightarrow> Inl e | Inr bs \<Rightarrow> Inr (word_of_int n # bs))"
proof -
  have "nat n div 16 < 16" "nat n mod 16 < 16"
    using assms by auto
  then show ?thesis
    using assms
    by (simp only: format_02x_byte append_Cons append_Nil a2b_hex_pair byte_of_nibbles)
qed


lemma status_byte_of_nat:
  assumes "0 \<le> e" "0 \<le> c"
  shows "(of_nat (16 * nat e + nat c) :: byte) = word_of_int (16 * e + c)"
proof -
  have "16 * nat e + nat c = nat (16 * e + c)"
    using assms by linarith
  then have "(of_nat (16 * nat e + nat c) :: byte) = of_nat (nat (16 * e + c))"
    by (simp only:)
  also have "\<dots> = word_of_int (16 * e + c)"
    using assms by (intro word_of_int_nat [symmetric]) linarith
  finally show ?thesis .
qed

lemma a2b_hex_status:
  assumes "0 \<le> e" "e < 16" "0 \<le> c" "c < 16"
  shows "a2b_hex (format_x 0 e @ format_x 0 c) = Inr [word_of_int (16 * e + c)]"
proof -
  have "nat e < 16" "nat c < 16"
    using assms by auto
  then show ?thesis
    using assms
    by (simp only: format_x_nibble append_Cons append_Nil a2b_hex_pair a2b_hex.simps(1) sum.case
        status_byte_of_nat)
qed


lemma midi_event_in_range:
  assumes "0 \<le> event_type" "event_type < 16" "0 \<le> channel" "channel < 16"
    and "0 \<le> param1" "param1 \<le> 255"
    and "case param2 of None \<Rightarrow> True | Some p2 \<Rightarrow> 0 \<le> p2 \<and> p2 \<le> 255"
  shows "midi_event self event_type channel param1 param2 =
           Inr (delta_time self @ [word_of_int (16 * event_type + channel)] @
                word_of_int param1 # (case param2 of None \<Rightarrow> [] | Some p2 \<Rightarrow> [word_of_int p2]))"
proof (cases param2)
  case None
  have "a2b_hex (format_x 2 param1) = Inr [word_of_int param1]"
    using a2b_hex_02x [of param1 "[]"] assms by simp
  with None assms show ?thesis
    by (simp add: midi_event_def a2b_hex_status)
next
  case (Some p2)
  with assms have "a2b_hex (format_x 2 p2) = Inr [word_of_int p2]"
    using a2b_hex_02x [of p2 "[]"] by simp
  then have "a2b_hex (format_x 2 param1 @ format_x 2 p2) = Inr [word_of_int param1, word_of_int p2]"
    using assms by (simp add: a2b_hex_02x)
  with Some assms show ?thesis
    by (simp add: midi_event_def a2b_hex_status)
qed

lemma status_nibbles:
  assumes "0 \<le> e" "e < 16" "0 \<le> c" "c < 16"
  shows "unat (word_of_int (16 * e + c) :: byte) div 16 = nat e \<and>
         unat (word_of_int (16 * e + c) :: byte) mod 16 = nat c"
proof -
  have n: "16 * nat e + nat c < 256" "nat c < 16"
    using assms by auto
  have "unat (of_nat (16 * nat e + nat c) :: byte) = (16 * nat e + nat c) mod 2 ^ LENGTH(8)"
    by (rule unat_of_nat)
  also have "\<dots> = 16 * nat e + nat c"
    using n(1) by simp
  finally have "unat (word_of_int (16 * e + c) :: byte) = 16 * nat e + nat c"
    using assms by (simp only: status_byte_of_nat)
  then show ?thesis
    using n(2) by simp
qed

lemma midi_event_16: "midi_event self 16 0 60 (Some 64) = Inl TypeError"
proof -
  have "format_x 0 16 @ format_x 0 0 = ''100''"
    by (simp add: format_x_def zero_pad_def hex_digits.simps hexchar_def)
  moreover have "a2b_hex ''100'' = Inl TypeError"
    by (simp add: hexval_def)
  ultimately show ?thesis
    by (simp add: midi_event_def)
qed

lemma byte_uint: "0 \<le> p \<Longrightarrow> p \<le> 255 \<Longrightarrow> uint (word_of_int p :: byte) = p"
  by (simp add: uint_word_of_int_eq take_bit_int_eq_self)

text \<open>
  C5. For an event type and a channel from 0 to 15 and parameters from 0 to 255,
  \<open>midi_event\<close> returns the current delta-time bytes, then one status byte with the event
  type in its high nibble and the channel in its low nibble, then \<open>param1\<close> and, when it
  is given, \<open>param2\<close>, one byte each. With delta-time 00, event type 9, channel 0 and
  parameters 60 and 64 the result is 00 90 3C 40.
\<close>

theorem midi_event_packs:
  assumes "0 \<le> event_type" "event_type < 16" "0 \<le> channel" "channel < 16"
    and "0 \<le> param1" "param1 \<le> 255"
    and "case param2 of None \<Rightarrow> True | Some p2 \<Rightarrow> 0 \<le> p2 \<and> p2 \<le> 255"
  shows "midi_event self event_type channel param1 param2 =
           Inr (delta_time self @ [word_of_int (16 * event_type + channel)] @
                word_of_int param1 # (case param2 of None \<Rightarrow> [] | Some p2 \<Rightarrow> [word_of_int p2]))
         \<and> unat (word_of_int (16 * event_type + channel) :: byte) div 16 = nat event_type
         \<and> unat (word_of_int (16 * event_type + channel) :: byte) mod 16 = nat channel
         \<and> uint (word_of_int param1 :: byte) = param1
         \<and> (case param2 of None \<Rightarrow> True | Some p2 \<Rightarrow> uint (word_of_int p2 :: byte) = p2)
         \<and> midi_event (self\<lparr>delta_time := [0x00]\<rparr>) 9 0 60 (Some 64) = Inr [0x00, 0x90, 0x3C, 0x40]"
proof -
  have "midi_event (self\<lparr>delta_time := [0x00]\<rparr>) 9 0 60 (Some 64) = Inr [0x00, 0x90, 0x3C, 0x40]"
    by (simp add: midi_event_in_range)
  moreover have "case param2 of None \<Rightarrow> True | Some p2 \<Rightarrow> uint (word_of_int p2 :: byte) = p2"
    using assms(7) by (cases param2) (simp_all add: byte_uint)
  ultimately show ?thesis
    using assms midi_event_in_range [OF assms] status_nibbles [of event_type channel]
    by (simp add: byte_uint)
qed

theorem midi_event_packs_witness:
  "(0::int) \<le> 11 \<and> (11::int) < 16 \<and> (0::int) \<le> 3 \<and> (3::int) < 16
     \<and> midi_event class_attributes 11 3 7 (Some 100) = Inr [0x00, 0xB3, 0x07, 0x64]
     \<and> unat (0xB3 :: byte) div 16 = 11 \<and> unat (0xB3 :: byte) mod 16 = 3"
  using midi_event_packs [of 11 3 7 "Some 100" class_attributes]
  by (simp add: class_attributes_def)

text \<open>
  C6. The claim: \<open>midi_event\<close> completes for every event type from 0 to 127 with a channel
  from 0 to 15 and byte-sized parameters. The event type 16 passes both assertions, the
  text \<open>"%x%x" % (16, 0)\<close> is \<open>100\<close>, of odd length, and \<open>a2b_hex\<close> raises \<open>TypeError\<close>.
\<close>

theorem midi_event_type_16_raises:
  "midi_event self 16 0 60 (Some 64) = Inl TypeError"
  by (rule midi_event_16)

section \<open>Notes and note containers\<close>

lemma note_on_encodable:
  assumes "0 \<le> channel" "channel < 16" "encodable n"
  shows "note_on self channel (note_int n + 12) (velocity_of n) =
           Inr (delta_time self @ voice_message NOTE_ON channel n)"
  using assms
  by (simp add: note_on_def NOTE_ON_def voice_message_def encodable_def midi_event_in_range)

lemma note_off_encodable:
  assumes "0 \<le> channel" "channel < 16" "encodable n"
  shows "note_off self channel (note_int n + 12) (velocity_of n) =
           Inr (delta_time self @ voice_message NOTE_OFF channel n)"
  using assms
  by (simp add: note_off_def NOTE_OFF_def voice_message_def encodable_def midi_event_in_range)

lemma play_Note_encodable:
  assumes "0 \<le> channel" "channel < 16" "encodable n"
  shows "play_Note self channel n =
           Inr (self\<lparr>track_data := track_data self @ delta_time self @ voice_message NOTE_ON channel n\<rparr>)"
  using note_on_encodable [OF assms, of self]
  by (simp add: play_Note_def velocity_of_def)

lemma stop_Note_encodable:
  assumes "0 \<le> channel" "channel < 16" "encodable n"
  shows "stop_Note self channel n =
           Inr (self\<lparr>track_data := track_data self @ delta_time self @ voice_message NOTE_OFF channel n\<rparr>)"
  using note_off_encodable [OF assms, of self]
  by (simp add: stop_Note_def velocity_of_def)

lemma play_Notes_encodable:
  assumes "0 \<le> channel" "channel < 16" "list_all encodable ns"
  shows "play_Notes self channel ns =
           Inr (self\<lparr>track_data := track_data self @
                  concat (map (\<lambda>x. delta_time self @ voice_message NOTE_ON channel x) ns)\<rparr>)"
  using assms(3)
proof (induction ns arbitrary: self)
  case Nil
  then show ?case by simp
next
  case (Cons n ns)
  then show ?case
    by (simp add: play_Note_encodable [OF assms(1,2)])
qed

lemma stop_Notes_encodable:
  assumes "0 \<le> channel" "channel < 16" "list_all encodable ns"
  shows "stop_Notes self channel ns =
           Inr (self\<lparr>track_data := track_data self @
                  concat (map (\<lambda>x. delta_time self @ voice_message NOTE_OFF channel x) ns)\<rparr>)"
  using assms(3)
proof (induction ns arbitrary: self)
  case Nil
  then show ?case by simp
next
  case (Cons n ns)
  then show ?case
    by (simp add: stop_Note_encodable [OF assms(1,2)])
qed


lemma septet_int_range: "0 \<le> (x::int) AND 0x7F" "(x::int) AND 0x7F \<le> 127"
proof -
  show "0 \<le> x AND 0x7F" by simp
  show "x AND 0x7F \<le> 127"
    by (rule AND_upper2) simp
qed

lemma high_bit_int_range:
  assumes "0 \<le> (b::int)" "b \<le> 127"
  shows "0 \<le> b OR 0x80" "b OR 0x80 \<le> 255"
proof -
  show "0 \<le> b OR 0x80" using assms by simp
  have "b OR 0x80 < 2 ^ 8"
    using assms by (intro OR_upper) simp_all
  then show "b OR 0x80 \<le> 255" by simp
qed

lemma varbyte_ints_range: "x \<in> set (varbyte_ints v) \<Longrightarrow> 0 \<le> x \<and> x \<le> 255"
proof -
  define xs where "xs = rev (map (\<lambda>i. drop_bit (i * 7) v AND 0x7F) [0..<varbyte_length v])"
  have xs: "\<And>b. b \<in> set xs \<Longrightarrow> 0 \<le> b \<and> b \<le> 127"
    using septet_int_range by (auto simp: xs_def)
  assume "x \<in> set (varbyte_ints v)"
  then have "x \<in> set (set_high_bits xs)"
    by (simp add: varbyte_ints_def Let_def xs_def)
  then consider b where "b \<in> set (butlast xs)" "x = b OR 0x80" | "x \<in> set xs"
    by (auto simp: set_high_bits_eq split: if_splits)
  then show ?thesis
  proof cases
    case 1
    then have "0 \<le> b \<and> b \<le> 127"
      using xs by (meson in_set_butlastD)
    with 1 show ?thesis
      using high_bit_int_range [of b] by simp
  next
    case 2
    then show ?thesis using xs by fastforce
  qed
qed

lemma int_to_varbyte_total: "int_to_varbyte v = Inr (varbyte_of v)"
  using varbyte_ints_range [of _ v]
  by (simp add: int_to_varbyte_def pack_B_def varbyte_of_def list_all_iff)

lemma varbyte_of_canonical: "0 \<le> v \<Longrightarrow> varbyte_of v = canonical_vlq (nat v)"
  using int_to_varbyte_total [of v] int_to_varbyte_canonical [of v] by simp

lemma varbyte_of_0: "varbyte_of 0 = [0x00]"
  by (simp add: varbyte_of_canonical canonical_vlq_0)

lemma set_deltatime_Ticks: "set_deltatime self (Ticks n) = Inr (self\<lparr>delta_time := varbyte_of n\<rparr>)"
  by (simp add: set_deltatime_def int_to_varbyte_total)

lemma set_deltatime_Varbyte: "set_deltatime self (Varbyte bs) = Inr (self\<lparr>delta_time := bs\<rparr>)"
  by (simp add: set_deltatime_def)

lemma play_NoteContainer_encodable:
  assumes "0 \<le> channel" "channel < 16" "list_all encodable nc"
  shows "play_NoteContainer self channel nc =
           Inr (self\<lparr>track_data := track_data self @ chord_events NOTE_ON (delta_time self) channel nc,
                     delta_time := (if 2 \<le> length nc then [0x00] else delta_time self)\<rparr>)"
proof (cases nc)
  case Nil
  then show ?thesis by (simp add: play_NoteContainer_def)
next
  case (Cons n ns)
  note nc = Cons
  show ?thesis
  proof (cases ns)
    case Nil
    with nc assms show ?thesis
      by (simp add: play_NoteContainer_def play_Note_encodable)
  next
    case (Cons m ms)
    with nc assms show ?thesis
      by (simp add: play_NoteContainer_def play_Note_encodable set_deltatime_Ticks varbyte_of_0
          play_Notes_encodable)
  qed
qed

lemma stop_NoteContainer_encodable:
  assumes "0 \<le> channel" "channel < 16" "list_all encodable nc"
  shows "stop_NoteContainer self channel nc =
           Inr (self\<lparr>track_data := track_data self @ chord_events NOTE_OFF (delta_time self) channel nc,
                     delta_time := (if 2 \<le> length nc then [0x00] else delta_time self)\<rparr>)"
proof (cases nc)
  case Nil
  then show ?thesis by (simp add: stop_NoteContainer_def)
next
  case (Cons n ns)
  note nc = Cons
  show ?thesis
  proof (cases ns)
    case Nil
    with nc assms show ?thesis
      by (simp add: stop_NoteContainer_def stop_Note_encodable)
  next
    case (Cons m ms)
    with nc assms show ?thesis
      by (simp add: stop_NoteContainer_def stop_Note_encodable set_deltatime_Ticks varbyte_of_0
          stop_Notes_encodable)
  qed
qed

text \<open>
  C2. On a channel from 0 to 15 and with notes whose shifted pitch and velocity fit a byte,
  \<open>play_NoteContainer\<close> on a container of at least two notes appends the note-on of the
  first note behind the pending delta-time and the note-on of every later note behind the
  delta-time 00, in the order of the container, whatever that order is;
  \<open>stop_NoteContainer\<close> does the same with note-off events; an empty container appends
  nothing, and a container of one note appends that note behind the pending delta-time.
\<close>

theorem note_container_delta_times:
  assumes "0 \<le> channel" "channel < 16"
    and "encodable n" "encodable m" "list_all encodable ns"
  shows "play_NoteContainer self channel (n # m # ns) =
           Inr (self\<lparr>track_data := track_data self @ delta_time self @ voice_message NOTE_ON channel n @
                         concat (map (\<lambda>x. 0x00 # voice_message NOTE_ON channel x) (m # ns)),
                     delta_time := [0x00]\<rparr>)
       \<and> stop_NoteContainer self channel (n # m # ns) =
           Inr (self\<lparr>track_data := track_data self @ delta_time self @ voice_message NOTE_OFF channel n @
                         concat (map (\<lambda>x. 0x00 # voice_message NOTE_OFF channel x) (m # ns)),
                     delta_time := [0x00]\<rparr>)
       \<and> play_NoteContainer self channel [] = Inr self
       \<and> stop_NoteContainer self channel [] = Inr self
       \<and> play_NoteContainer self channel [n] =
           Inr (self\<lparr>track_data := track_data self @ delta_time self @ voice_message NOTE_ON channel n\<rparr>)
       \<and> stop_NoteContainer self channel [n] =
           Inr (self\<lparr>track_data := track_data self @ delta_time self @ voice_message NOTE_OFF channel n\<rparr>)"
  using assms
  by (simp add: play_NoteContainer_encodable stop_NoteContainer_encodable)

theorem note_container_delta_times_witness:
  "play_NoteContainer (class_attributes\<lparr>delta_time := [0x48]\<rparr>) 0
       [\<lparr>note_int = 48, dynamics = None\<rparr>, \<lparr>note_int = 52, dynamics = Some [''velocity'' \<mapsto> 100]\<rparr>] =
     Inr \<lparr>track_data = [0x48, 0x90, 0x3C, 0x40, 0x00, 0x90, 0x40, 0x64],
          delta_time = [0x00], delay = 0, bpm = 120\<rparr>
   \<and> stop_NoteContainer (class_attributes\<lparr>delta_time := [0x48]\<rparr>) 0
       [\<lparr>note_int = 48, dynamics = None\<rparr>, \<lparr>note_int = 52, dynamics = Some [''velocity'' \<mapsto> 100]\<rparr>] =
     Inr \<lparr>track_data = [0x48, 0x80, 0x3C, 0x40, 0x00, 0x80, 0x40, 0x64],
          delta_time = [0x00], delay = 0, bpm = 120\<rparr>"
  using note_container_delta_times [of 0 "\<lparr>note_int = 48, dynamics = None\<rparr>"
      "\<lparr>note_int = 52, dynamics = Some [''velocity'' \<mapsto> 100]\<rparr>" "[]"
      "class_attributes\<lparr>delta_time := [0x48]\<rparr>"]
  by (simp add: encodable_def velocity_of_def voice_message_def NOTE_ON_def NOTE_OFF_def
      class_attributes_def)

section \<open>Bars\<close>

lemma tick_of_nonzero: "d \<noteq> 0 \<Longrightarrow> tick_of d = Inr (py_round (288 / d))"
  by (simp add: tick_of_def)




lemma play_Bar_notes:
  assumes "0 \<le> channel" "channel < 16" "d \<noteq> 0" "nc \<noteq> []" "list_all encodable nc"
  shows "play_Bar self channel ((p, d, Some nc) # bar) =
           play_Bar \<lparr>track_data = track_data self @
                          chord_events NOTE_ON (varbyte_of (delay self)) channel nc @
                          chord_events NOTE_OFF (varbyte_of (py_round (288 / d))) channel nc,
                      delta_time = (if 2 \<le> length nc then [0x00] else varbyte_of (py_round (288 / d))),
                      delay = 0, bpm = bpm self\<rparr> channel bar"
  using assms
  by (cases self)
    (simp add: tick_of_nonzero set_deltatime_Ticks set_deltatime_Varbyte int_to_varbyte_total
      play_NoteContainer_encodable stop_NoteContainer_encodable)

lemma play_Bar_Cons_notes:
  assumes "nc \<noteq> []"
  shows "play_Bar self channel ((p, d, Some nc) # bar) =
     (case tick_of d of
        Inl e \<Rightarrow> Inl (e, self)
      | Inr tick \<Rightarrow>
          (case play_NoteContainer (self\<lparr>delta_time := varbyte_of (delay self), delay := 0\<rparr>)
                  channel nc of
             Inl r \<Rightarrow> Inl r
           | Inr self2 \<Rightarrow>
               (case stop_NoteContainer (self2\<lparr>delta_time := varbyte_of tick\<rparr>) channel nc of
                  Inl r \<Rightarrow> Inl r
                | Inr self4 \<Rightarrow> play_Bar self4 channel bar)))"
  using assms
  by (simp add: set_deltatime_Ticks set_deltatime_Varbyte int_to_varbyte_total
      cong: sum.case_cong)

lemma play_Bar_Cons_rest:
  assumes "grp = None \<or> grp = Some []"
  shows "play_Bar self channel ((p, d, grp) # bar) =
     (case tick_of d of
        Inl e \<Rightarrow> Inl (e, self)
      | Inr tick \<Rightarrow> play_Bar (self\<lparr>delay := delay self + tick\<rparr>) channel bar)"
  using assms by (auto cong: sum.case_cong)


lemma py_round_nonneg: "0 \<le> x \<Longrightarrow> py_round x = round x"
  by (simp add: py_round_def round_def)


lemma tick_range:
  assumes "1 \<le> k"
  shows "0 \<le> round (288 / (of_int k :: rat))" "round (288 / (of_int k :: rat)) \<le> 288"
proof -
  have k: "(1::rat) \<le> of_int k"
    using assms by simp
  then have "0 \<le> 288 / (of_int k :: rat)" "288 / (of_int k :: rat) \<le> 288"
    by (simp_all add: divide_le_eq)
  then have "round (0::rat) \<le> round (288 / (of_int k :: rat))"
    "round (288 / (of_int k :: rat)) \<le> round (288::rat)"
    by (simp_all only: round_mono)
  then show "0 \<le> round (288 / (of_int k :: rat))" "round (288 / (of_int k :: rat)) \<le> 288"
    by simp_all
qed

lemma round_72: "round (288 / (of_int 4 :: rat)) = 72"
  by simp

lemma py_round_tick:
  assumes "1 \<le> k"
  shows "py_round (288 / (of_int k :: rat)) = round (288 / (of_int k :: rat))"
proof -
  have "0 \<le> 288 / (of_int k :: rat)"
    using assms by simp
  then show ?thesis
    by (rule py_round_nonneg)
qed


lemma play_Bar_notes_int:
  assumes "0 \<le> channel" "channel < 16" "1 \<le> k"
    and "0 \<le> delay self" "nc \<noteq> []" "list_all encodable nc"
  shows "play_Bar self channel ((p, of_int k, Some nc) # bar) =
           play_Bar \<lparr>track_data = track_data self @
                          chord_events NOTE_ON (canonical_vlq (nat (delay self))) channel nc @
                          chord_events NOTE_OFF (canonical_vlq (nat (round (288 / (of_int k :: rat))))) channel nc,
                      delta_time = (if 2 \<le> length nc then [0x00]
                                    else canonical_vlq (nat (round (288 / (of_int k :: rat))))),
                      delay = 0, bpm = bpm self\<rparr> channel bar"
proof -
  have d: "(of_int k :: rat) \<noteq> 0"
    using assms(3) by simp
  have v: "varbyte_of (round (288 / (of_int k :: rat))) = canonical_vlq (nat (round (288 / (of_int k :: rat))))"
    "varbyte_of (delay self) = canonical_vlq (nat (delay self))"
    using tick_range(1) [OF assms(3)] assms(4) by (simp_all add: varbyte_of_canonical)
  show ?thesis
    using play_Bar_notes [OF assms(1,2) d assms(5,6), of self p bar]
    by (simp only: py_round_tick [OF assms(3)] v)
qed



section \<open>The track chunk\<close>

lemma hex_fixed_0: "hex_fixed k 0 = replicate k CHR ''0''"
  by (induction k) (simp_all add: hexchar_0 replicate_append_same)

lemma zero_pad_snoc: "zero_pad (Suc w) (xs @ [c]) = zero_pad w xs @ [c]"
  by (simp add: zero_pad_def)

lemma zero_pad_hex_digits:
  "n < 16 ^ Suc k \<Longrightarrow> zero_pad (Suc k) (hex_digits n) = hex_fixed (Suc k) n"
proof (induction k arbitrary: n)
  case 0
  then show ?case
    by (simp add: hex_digits_1 zero_pad_def)
next
  case (Suc k)
  show ?case
  proof (cases "n < 16")
    case True
    then show ?thesis
      by (simp add: hex_digits_1 zero_pad_def hex_fixed_0 hexchar_0 replicate_append_same)
  next
    case False
    from Suc.prems have "n div 16 < 16 ^ Suc k"
      by (simp add: less_mult_imp_div_less mult.commute)
    then have "zero_pad (Suc k) (hex_digits (n div 16)) = hex_fixed (Suc k) (n div 16)"
      by (rule Suc.IH)
    moreover have "hex_digits n = hex_digits (n div 16) @ [hexchar (n mod 16)]"
      using False by (subst hex_digits.simps) simp
    ultimately show ?thesis
      by (simp only: zero_pad_snoc hex_fixed.simps)
  qed
qed


lemma div_16_16: "(n::nat) div 16 div 16 = n div 256"
  using div_mult2_eq [of n 16 16] by simp

lemma hex_fixed_Suc_Suc:
  "hex_fixed (Suc (Suc k)) n = hex_fixed k (n div 256) @ [hexchar (n div 16 mod 16), hexchar (n mod 16)]"
  by (simp add: div_16_16)

lemma byte_of_nat_mod: "(of_nat (16 * (m div 16 mod 16) + m mod 16) :: byte) = of_nat m"
proof -
  have "16 * (m div 16 mod 16) + m mod 16 = m mod 256"
    using mod_mult2_eq [of m 16 16] by simp
  then have "(of_nat (16 * (m div 16 mod 16) + m mod 16) :: byte) = of_nat (m mod 2 ^ LENGTH(8))"
    by simp
  also have "\<dots> = of_nat m"
    by (simp only: word_of_nat_eq_iff take_bit_eq_mod mod_mod_trivial)
  finally show ?thesis .
qed

lemma a2b_hex_byte:
  "a2b_hex (hexchar (m div 16 mod 16) # hexchar (m mod 16) # cs) =
     (case a2b_hex cs of Inl e \<Rightarrow> Inl e | Inr bs \<Rightarrow> Inr (of_nat m # bs))"
proof -
  have "m div 16 mod 16 < 16" "m mod 16 < 16" by simp_all
  then show ?thesis
    by (simp only: a2b_hex_pair byte_of_nat_mod)
qed

lemma a2b_hex_hex_fixed_8:
  "a2b_hex (hex_fixed 8 n) = Inr (big_endian32 n)"
proof -
  have "(8::nat) = Suc (Suc (Suc (Suc (Suc (Suc (Suc (Suc 0)))))))"
    by simp
  then have "hex_fixed 8 n = hex_fixed (Suc (Suc (Suc (Suc (Suc (Suc (Suc (Suc 0)))))))) n"
    by (simp only:)
  also have "\<dots> = [hexchar (n div 256 div 256 div 256 div 16 mod 16), hexchar (n div 256 div 256 div 256 mod 16),
                   hexchar (n div 256 div 256 div 16 mod 16), hexchar (n div 256 div 256 mod 16),
                   hexchar (n div 256 div 16 mod 16), hexchar (n div 256 mod 16),
                   hexchar (n div 16 mod 16), hexchar (n mod 16)]"
    by (simp only: hex_fixed_Suc_Suc hex_fixed.simps(1) append_Nil append_Cons)
  finally have "a2b_hex (hex_fixed 8 n) =
      Inr [of_nat (n div 256 div 256 div 256), of_nat (n div 256 div 256), of_nat (n div 256), of_nat n]"
    by (simp only: a2b_hex_byte a2b_hex.simps(1) sum.case)
  moreover have "n div 256 div 256 = n div 2 ^ 16" "n div 256 div 256 div 256 = n div 2 ^ 24"
    "n div 256 = n div 2 ^ 8"
    using div_mult2_eq [of n 256 256] div_mult2_eq [of n 65536 256] by simp_all
  ultimately show ?thesis
    by (simp only: big_endian32_def)
qed

lemma format_08x: "m < 2 ^ 32 \<Longrightarrow> format_x 8 (int m) = hex_fixed 8 m"
proof -
  assume "m < 2 ^ 32"
  then have "m < 16 ^ Suc 7" by simp
  then have "zero_pad (Suc 7) (hex_digits m) = hex_fixed (Suc 7) m"
    by (rule zero_pad_hex_digits)
  then show ?thesis
    by (simp add: format_x_def)
qed

lemma length_end_of_track: "length end_of_track = 4"
  by (simp add: end_of_track_def)

lemma header_big_endian:
  assumes "length (track_data self) + 4 < 2 ^ 32"
  shows "header self = Inr (TRACK_HEADER @ big_endian32 (length (track_data self) + 4))"
  by (simp only: header_def length_end_of_track format_08x [OF assms] a2b_hex_hex_fixed_8 sum.case)

lemma unat_byte_of_nat: "unat (of_nat m :: byte) = m mod 256"
  by (simp add: unat_of_nat)

lemma big_endian_value32:
  assumes "n < 2 ^ 32"
  shows "big_endian_value (big_endian32 n) = n"
proof -
  have a: "n div 2 ^ 24 < 256"
    using assms by (simp add: less_mult_imp_div_less)
  have b: "n div 2 ^ 16 = (n div 2 ^ 24) * 256 + n div 2 ^ 16 mod 256"
    using div_mult2_eq [of n "2 ^ 16" 256] by simp
  have c: "n div 2 ^ 8 = (n div 2 ^ 16) * 256 + n div 2 ^ 8 mod 256"
    using div_mult2_eq [of n "2 ^ 8" 256] by simp
  have d: "n = (n div 2 ^ 8) * 256 + n mod 256"
    by simp
  have "big_endian_value (big_endian32 n) =
      (((n div 2 ^ 24) * 256 + n div 2 ^ 16 mod 256) * 256 + n div 2 ^ 8 mod 256) * 256 + n mod 256"
    using a by (simp add: big_endian_value_def big_endian32_def unat_byte_of_nat)
  also have "\<dots> = n"
    using b c d by presburger
  finally show ?thesis .
qed

text \<open>
  C4. For an encoder whose \<open>track_data\<close> holds \<open>N\<close> bytes, with \<open>N + 4\<close> below \<open>2^32\<close>,
  \<open>get_midi_data\<close> returns the 4-byte tag \<open>MTrk\<close>, a 4-byte big-endian length field
  that holds \<open>N + 4\<close>, the \<open>N\<close> bytes of the body and the end-of-track marker
  00 FF 2F 00.
\<close>

theorem get_midi_data_chunk:
  assumes "length (track_data self) + 4 < 2 ^ 32"
  shows "get_midi_data self =
           Inr (TRACK_HEADER @ big_endian32 (length (track_data self) + 4) @
                track_data self @ end_of_track)
       \<and> TRACK_HEADER = map of_char ''MTrk''
       \<and> length (big_endian32 (length (track_data self) + 4)) = 4
       \<and> big_endian_value (big_endian32 (length (track_data self) + 4)) = length (track_data self) + 4
       \<and> end_of_track = [0x00, 0xFF, 0x2F, 0x00]"
proof -
  have "TRACK_HEADER = map of_char ''MTrk''"
    by (simp add: TRACK_HEADER_def)
  moreover have "length (big_endian32 (length (track_data self) + 4)) = 4"
    by (simp add: big_endian32_def)
  moreover have "get_midi_data self =
           Inr (TRACK_HEADER @ big_endian32 (length (track_data self) + 4) @
                track_data self @ end_of_track)"
    by (simp add: get_midi_data_def header_big_endian [OF assms])
  ultimately show ?thesis
    using big_endian_value32 [OF assms] by (simp add: end_of_track_def)
qed

theorem get_midi_data_chunk_witness:
  "get_midi_data (class_attributes\<lparr>track_data := [1, 2, 3]\<rparr>) =
     Inr [0x4D, 0x54, 0x72, 0x6B, 0, 0, 0, 7, 1, 2, 3, 0x00, 0xFF, 0x2F, 0x00]"
  using get_midi_data_chunk [of "class_attributes\<lparr>track_data := [1, 2, 3]\<rparr>"]
  by (simp add: TRACK_HEADER_def big_endian32_def end_of_track_def)

section \<open>Every call but \<open>reset\<close> only appends\<close>

lemma appends_only_bind:
  assumes "appends_only self r" and "\<And>s'. r = Inr s' \<Longrightarrow> appends_only s' (g s')"
  shows "appends_only self (case r of Inl x \<Rightarrow> Inl x | Inr s' \<Rightarrow> g s')"
proof (cases r)
  case (Inl x)
  with assms(1) show ?thesis by simp
next
  case (Inr s')
  with assms have "prefix (track_data self) (track_data s')" "prefix (track_data s') (track_data (state_after (g s')))"
    by (simp_all add: appends_only_def state_after_def)
  with Inr show ?thesis
    by (simp add: appends_only_def)
qed

lemma appends_only_same: "track_data s' = track_data self \<Longrightarrow> appends_only self (Inr s')"
  "track_data s' = track_data self \<Longrightarrow> appends_only self (Inl (e, s'))"
  by (simp_all add: appends_only_def state_after_def)

lemma appends_only_trans:
  "track_data s' = track_data self \<Longrightarrow> appends_only s' r \<Longrightarrow> appends_only self r"
  by (simp add: appends_only_def)

lemma play_Note_appends: "appends_only self (play_Note self channel n)"
  by (simp add: play_Note_def appends_only_def state_after_def Let_def split: sum.splits)

lemma stop_Note_appends: "appends_only self (stop_Note self channel n)"
  by (simp add: stop_Note_def appends_only_def state_after_def Let_def split: sum.splits)

lemma play_Notes_appends: "appends_only self (play_Notes self channel ns)"
proof (induction ns arbitrary: self)
  case Nil
  show ?case by (simp add: appends_only_same)
next
  case (Cons n ns)
  show ?case
    unfolding play_Notes.simps
    by (rule appends_only_bind) (simp_all add: play_Note_appends Cons)
qed

lemma stop_Notes_appends: "appends_only self (stop_Notes self channel ns)"
proof (induction ns arbitrary: self)
  case Nil
  show ?case by (simp add: appends_only_same)
next
  case (Cons n ns)
  show ?case
    unfolding stop_Notes.simps
    by (rule appends_only_bind) (simp_all add: stop_Note_appends Cons)
qed

lemma set_deltatime_appends: "appends_only self (set_deltatime self dt)"
  by (cases dt) (simp_all add: set_deltatime_Ticks set_deltatime_Varbyte appends_only_same)

lemma play_NoteContainer_appends: "appends_only self (play_NoteContainer self channel nc)"
proof (cases "length nc \<le> 1")
  case True
  then show ?thesis by (simp add: play_NoteContainer_def play_Notes_appends)
next
  case False
  have "appends_only self
      (case play_Note self channel (nc ! 0) of
         Inl r \<Rightarrow> Inl r
       | Inr self1 \<Rightarrow> play_Notes (self1\<lparr>delta_time := varbyte_of 0\<rparr>) channel (drop 1 nc))"
    by (rule appends_only_bind)
      (auto intro: play_Note_appends appends_only_trans [OF _ play_Notes_appends])
  with False show ?thesis
    by (simp add: play_NoteContainer_def set_deltatime_Ticks cong: sum.case_cong)
qed

lemma stop_NoteContainer_appends: "appends_only self (stop_NoteContainer self channel nc)"
proof (cases "length nc \<le> 1")
  case True
  then show ?thesis by (simp add: stop_NoteContainer_def stop_Notes_appends)
next
  case False
  have "appends_only self
      (case stop_Note self channel (nc ! 0) of
         Inl r \<Rightarrow> Inl r
       | Inr self1 \<Rightarrow> stop_Notes (self1\<lparr>delta_time := varbyte_of 0\<rparr>) channel (drop 1 nc))"
    by (rule appends_only_bind)
      (auto intro: stop_Note_appends appends_only_trans [OF _ stop_Notes_appends])
  with False show ?thesis
    by (simp add: stop_NoteContainer_def set_deltatime_Ticks cong: sum.case_cong)
qed

lemma play_Bar_appends: "appends_only self (play_Bar self channel bar)"
proof (induction bar arbitrary: self)
  case Nil
  show ?case by (simp add: appends_only_same)
next
  case (Cons x bar)
  obtain p d grp where x: "x = (p, d, grp)"
    by (cases x)
  show ?case
  proof (cases "grp = None \<or> grp = Some []")
    case True
    show ?thesis
      unfolding x play_Bar_Cons_rest [OF True]
      by (cases "tick_of d")
        (auto simp: appends_only_same intro: appends_only_trans [OF _ Cons])
  next
    case False
    then obtain nc where nc: "grp = Some nc" "nc \<noteq> []"
      by auto
    show ?thesis
      unfolding x nc(1) play_Bar_Cons_notes [OF nc(2)]
    proof (cases "tick_of d")
      case (Inl e)
      then show "appends_only self
        (case tick_of d of
           Inl e \<Rightarrow> Inl (e, self)
         | Inr tick \<Rightarrow>
             (case play_NoteContainer (self\<lparr>delta_time := varbyte_of (delay self), delay := 0\<rparr>)
                     channel nc of
                Inl r \<Rightarrow> Inl r
              | Inr self2 \<Rightarrow>
                  (case stop_NoteContainer (self2\<lparr>delta_time := varbyte_of tick\<rparr>) channel nc of
                     Inl r \<Rightarrow> Inl r
                   | Inr self4 \<Rightarrow> play_Bar self4 channel bar)))"
        by (simp add: appends_only_same)
    next
      case (Inr tick)
      have "appends_only (self\<lparr>delta_time := varbyte_of (delay self), delay := 0\<rparr>)
        (case play_NoteContainer (self\<lparr>delta_time := varbyte_of (delay self), delay := 0\<rparr>)
                channel nc of
           Inl r \<Rightarrow> Inl r
         | Inr self2 \<Rightarrow>
             (case stop_NoteContainer (self2\<lparr>delta_time := varbyte_of tick\<rparr>) channel nc of
                Inl r \<Rightarrow> Inl r
              | Inr self4 \<Rightarrow> play_Bar self4 channel bar))"
      proof (rule appends_only_bind [OF play_NoteContainer_appends])
        fix self2
        have "appends_only (self2\<lparr>delta_time := varbyte_of tick\<rparr>)
          (case stop_NoteContainer (self2\<lparr>delta_time := varbyte_of tick\<rparr>) channel nc of
             Inl r \<Rightarrow> Inl r
           | Inr self4 \<Rightarrow> play_Bar self4 channel bar)"
          by (rule appends_only_bind [OF stop_NoteContainer_appends]) (rule Cons)
        then show "appends_only self2
          (case stop_NoteContainer (self2\<lparr>delta_time := varbyte_of tick\<rparr>) channel nc of
             Inl r \<Rightarrow> Inl r
           | Inr self4 \<Rightarrow> play_Bar self4 channel bar)"
          by (simp add: appends_only_def)
      qed
      then show "appends_only self
        (case tick_of d of
           Inl e \<Rightarrow> Inl (e, self)
         | Inr tick \<Rightarrow>
             (case play_NoteContainer (self\<lparr>delta_time := varbyte_of (delay self), delay := 0\<rparr>)
                     channel nc of
                Inl r \<Rightarrow> Inl r
              | Inr self2 \<Rightarrow>
                  (case stop_NoteContainer (self2\<lparr>delta_time := varbyte_of tick\<rparr>) channel nc of
                     Inl r \<Rightarrow> Inl r
                   | Inr self4 \<Rightarrow> play_Bar self4 channel bar)))"
        using Inr by (simp add: appends_only_def)
    qed
  qed
qed

lemma play_Bars_appends: "appends_only self (play_Bars self channel bs)"
proof (induction bs arbitrary: self)
  case Nil
  show ?case by (simp add: appends_only_same)
next
  case (Cons b bs)
  show ?case
    unfolding play_Bars.simps
    by (rule appends_only_bind [OF play_Bar_appends]) (rule Cons)
qed

lemma set_instrument_appends: "appends_only self (set_instrument self channel instr bank)"
  by (simp add: set_instrument_def appends_only_def state_after_def Let_def split: sum.splits)

lemma set_tempo_appends: "appends_only self (set_tempo self bpm_arg)"
  by (simp add: set_tempo_def appends_only_def state_after_def Let_def split: sum.splits)

lemma play_Track_appends: "appends_only self (play_Track self channel trk)"
proof -
  have "appends_only (self\<lparr>delay := 0\<rparr>)
     (case (case instrument_nr trk of
              Some nr \<Rightarrow> set_instrument (self\<lparr>delay := 0\<rparr>) channel nr 1
            | None \<Rightarrow> Inr (self\<lparr>delay := 0\<rparr>)) of
        Inl r \<Rightarrow> Inl r
      | Inr self1 \<Rightarrow> play_Bars self1 channel (bars trk))"
    by (rule appends_only_bind)
      (auto simp: set_instrument_appends appends_only_same play_Bars_appends split: option.splits)
  then show ?thesis
    by (simp add: play_Track_def Let_def appends_only_def)
qed

lemma perform_appends: "c \<noteq> Reset \<Longrightarrow> appends_only self (perform self c)"
  by (cases c)
    (simp_all add: play_Note_appends play_NoteContainer_appends play_Bar_appends play_Track_appends
      stop_Note_appends stop_NoteContainer_appends set_instrument_appends set_deltatime_appends
      set_tempo_appends)




lemma play_Note_raises_unchanged: "play_Note self channel n = Inl (e, s') \<Longrightarrow> s' = self"
  by (simp add: play_Note_def Let_def split: sum.splits)

lemma stop_Note_raises_unchanged: "stop_Note self channel n = Inl (e, s') \<Longrightarrow> s' = self"
  by (simp add: stop_Note_def Let_def split: sum.splits)

lemma midi_event_256: "midi_event self 9 0 256 (Some 64) = Inl TypeError"
proof -
  have "format_x 2 256 @ format_x 2 64 = ''10040''"
    by (simp add: format_x_def zero_pad_def hex_digits.simps hexchar_def)
  moreover have "a2b_hex ''10040'' = Inl TypeError"
    by (simp add: hexval_def)
  moreover have "a2b_hex (format_x 0 9 @ format_x 0 0) = Inr [0x90]"
    by (simp add: a2b_hex_status)
  ultimately show ?thesis
    by (simp add: midi_event_def)
qed

lemma play_Note_244:
  "play_Note self channel \<lparr>note_int = 244, dynamics = None\<rparr> =
     (case midi_event self 9 channel 256 (Some 64) of Inl e \<Rightarrow> Inl (e, self)
      | Inr ev \<Rightarrow> Inr (self\<lparr>track_data := track_data self @ ev\<rparr>))"
  by (simp add: play_Note_def note_on_def NOTE_ON_def)

section \<open>The tempo event at the head of the buffer\<close>


































section \<open>Calls that raise\<close>

text \<open>
  C9 (as amended). A call that raises never removes or changes bytes already in
  \<open>track_data\<close>: the buffer before the call is a prefix of the buffer the call leaves.
  A \<open>play_Note\<close> or \<open>stop_Note\<close> that raises leaves the encoder exactly as it was.
\<close>

theorem failing_call_keeps_buffer:
  assumes "perform self c = Inl (e, s')"
  shows "prefix (track_data self) (track_data s')
       \<and> ((\<exists>channel n. c = Play_Note channel n \<or> c = Stop_Note channel n) \<longrightarrow> s' = self)"
proof -
  from assms have "c \<noteq> Reset"
    by auto
  then have "appends_only self (perform self c)"
    by (rule perform_appends)
  with assms have "prefix (track_data self) (track_data s')"
    by (simp add: appends_only_def state_after_def)
  moreover have "(\<exists>channel n. c = Play_Note channel n \<or> c = Stop_Note channel n) \<longrightarrow> s' = self"
    using assms by (auto dest: play_Note_raises_unchanged stop_Note_raises_unchanged)
  ultimately show ?thesis
    by simp
qed

theorem failing_call_keeps_buffer_witness:
  "perform \<lparr>track_data = [1, 2, 3], delta_time = [0x00], delay = 0, bpm = 120\<rparr>
       (Play_Note 0 \<lparr>note_int = 244, dynamics = None\<rparr>) =
     Inl (TypeError, \<lparr>track_data = [1, 2, 3], delta_time = [0x00], delay = 0, bpm = 120\<rparr>)
   \<and> prefix (track_data \<lparr>track_data = [1, 2, 3], delta_time = [0x00], delay = 0, bpm = 120\<rparr>)
        (track_data \<lparr>track_data = [1, 2, 3], delta_time = [0x00], delay = 0, bpm = 120\<rparr>)"
  using failing_call_keeps_buffer [of "\<lparr>track_data = [1, 2, 3], delta_time = [0x00], delay = 0, bpm = 120\<rparr>"
      "Play_Note 0 \<lparr>note_int = 244, dynamics = None\<rparr>" TypeError
      "\<lparr>track_data = [1, 2, 3], delta_time = [0x00], delay = 0, bpm = 120\<rparr>"]
  by (simp add: play_Note_244 midi_event_256)

text \<open>The claim as stated fails for a note container: with a first note that can be
  encoded and a second whose shifted pitch is 256, \<open>play_NoteContainer\<close> raises after it
  has appended the first note's event.\<close>

theorem play_NoteContainer_partial_append:
  "play_NoteContainer \<lparr>track_data = [], delta_time = [0x00], delay = 0, bpm = 120\<rparr> 0
       [\<lparr>note_int = 48, dynamics = None\<rparr>, \<lparr>note_int = 244, dynamics = None\<rparr>] =
     Inl (TypeError, \<lparr>track_data = [0x00, 0x90, 0x3C, 0x40], delta_time = [0x00], delay = 0, bpm = 120\<rparr>)"
proof -
  have "encodable \<lparr>note_int = 48, dynamics = None\<rparr>"
    by (simp add: encodable_def velocity_of_def)
  then have "play_Note \<lparr>track_data = [], delta_time = [0x00], delay = 0, bpm = 120\<rparr> 0
        \<lparr>note_int = 48, dynamics = None\<rparr> =
      Inr \<lparr>track_data = [0x00, 0x90, 0x3C, 0x40], delta_time = [0x00], delay = 0, bpm = 120\<rparr>"
    by (simp add: play_Note_encodable voice_message_def NOTE_ON_def velocity_of_def)
  then show ?thesis
    by (simp add: play_NoteContainer_def set_deltatime_Ticks varbyte_of_0 play_Note_244 midi_event_256)
qed

section \<open>Tracks\<close>

text \<open>
  C8. The claim: \<open>play_Track\<close> emits the bank-select controller event on the given
  channel, with the bank-select controller number as first parameter. On channel 1, with
  program number 5 and no bars, the code sets \<open>delay\<close> to 0 and appends 00 B0 01 01
  00 C1 05: the controller event is on channel 0 (\<open>BANK_SELECT\<close>) and its first parameter
  is the channel 1, because \<open>select_bank\<close> passes its arguments to \<open>controller_event\<close> in
  the wrong order. The claim asks for 00 B1 00 01 00 C1 05.
\<close>

theorem play_Track_bank_select_on_channel_0:
  "play_Track \<lparr>track_data = [], delta_time = [0x00], delay = 7, bpm = 120\<rparr> 1
       \<lparr>instrument_nr = Some 5, bars = []\<rparr> =
     Inr \<lparr>track_data = [0x00, 0xB0, 0x01, 0x01, 0x00, 0xC1, 0x05],
          delta_time = [0x00], delay = 0, bpm = 120\<rparr>"
  by (simp add: play_Track_def set_instrument_def select_bank_def controller_event_def
      program_change_event_def BANK_SELECT_def CONTROLLER_def PROGRAM_CHANGE_def
      midi_event_in_range)

section \<open>Reset\<close>

text \<open>
  C10. \<open>reset\<close> sets \<open>track_data\<close> to the empty byte string and \<open>delta_time\<close> to the
  single byte 00 and leaves \<open>delay\<close> and \<open>bpm\<close> as they were; so the first note-on of a
  \<open>play_Bar\<close> after \<open>reset\<close> carries as delta-time the variable-length quantity of the
  \<open>delay\<close> accumulated before the reset. For the \<open>play_Bar\<close> the denominator is an
  integer from 1 to 300000, \<open>delay\<close> is from 0 to 2097151, the channel is from 0 to 15 and
  the note fits its bytes.
\<close>

theorem reset_keeps_delay:
  assumes "0 \<le> channel" "channel < 16" "1 \<le> k" "k \<le> 300000"
    and "0 \<le> delay self" "delay self \<le> 2097151" "encodable n"
  shows "reset self = self\<lparr>track_data := [], delta_time := [0x00]\<rparr>
       \<and> track_data (reset self) = [] \<and> delta_time (reset self) = [0x00]
       \<and> delay (reset self) = delay self \<and> bpm (reset self) = bpm self
       \<and> play_Bar (reset self) channel [(p, of_int k, Some [n])] =
           Inr \<lparr>track_data = canonical_vlq (nat (delay self)) @ voice_message NOTE_ON channel n @
                                canonical_vlq (nat (round (288 / (of_int k :: rat)))) @
                                voice_message NOTE_OFF channel n,
                delta_time = canonical_vlq (nat (round (288 / (of_int k :: rat)))),
                delay = 0, bpm = bpm self\<rparr>"
proof -
  have "0 \<le> delay (reset self)"
    using assms(5) by (simp add: reset_def)
  then have "play_Bar (reset self) channel [(p, of_int k, Some [n])] =
      play_Bar \<lparr>track_data = track_data (reset self) @
                          chord_events NOTE_ON (canonical_vlq (nat (delay (reset self)))) channel [n] @
                          chord_events NOTE_OFF (canonical_vlq (nat (round (288 / (of_int k :: rat))))) channel [n],
                      delta_time = (if 2 \<le> length [n] then [0x00]
                                    else canonical_vlq (nat (round (288 / (of_int k :: rat))))),
                      delay = 0, bpm = bpm (reset self)\<rparr> channel []"
    using assms(1,2,3,7) by (intro play_Bar_notes_int) simp_all
  then show ?thesis
    by (simp add: reset_def)
qed

theorem reset_keeps_delay_witness:
  "play_Bar (reset \<lparr>track_data = [1, 2, 3], delta_time = [0x05], delay = 72, bpm = 120\<rparr>) 0
       [(0, 8, Some [\<lparr>note_int = 48, dynamics = None\<rparr>])] =
     Inr \<lparr>track_data = [0x48, 0x90, 0x3C, 0x40, 0x24, 0x80, 0x3C, 0x40],
          delta_time = [0x24], delay = 0, bpm = 120\<rparr>
   \<and> delay (reset \<lparr>track_data = [1, 2, 3], delta_time = [0x05], delay = 72, bpm = 120\<rparr>) = 72"
proof -
  have c: "canonical_vlq 72 = [0x48]" "canonical_vlq 36 = [0x24]"
    by (simp_all add: canonical_vlq_def digits128.simps)
  show ?thesis
    using reset_keeps_delay [of 0 8 "\<lparr>track_data = [1, 2, 3], delta_time = [0x05], delay = 72, bpm = 120\<rparr>"
      "\<lparr>note_int = 48, dynamics = None\<rparr>" 0]
    by (simp add: encodable_def velocity_of_def voice_message_def NOTE_ON_def NOTE_OFF_def
        c reset_def del: play_Bar.simps(2))
qed

end
